theory Spec2Isabelle
  imports Main "HOL-Library.Sublist"
begin

section \<open>Python string operations used by the redirect model\<close>

text \<open>
  Strings are \<^typ>\<open>string\<close>. The operations below follow the semantics of
  Python's \<^verbatim>\<open>str\<close> methods that \<^verbatim>\<open>readthedocs/redirects/models.py\<close> calls.
\<close>

definition startswith :: "string \<Rightarrow> string \<Rightarrow> bool" where
  \<comment> \<open>\<^verbatim>\<open>s.startswith(p)\<close>\<close>
  "startswith s p = prefix p s"

definition endswith :: "string \<Rightarrow> string \<Rightarrow> bool" where
  \<comment> \<open>\<^verbatim>\<open>s.endswith(p)\<close>\<close>
  "endswith s p = suffix p s"

fun contains :: "string \<Rightarrow> string \<Rightarrow> bool" where
  \<comment> \<open>\<^verbatim>\<open>sub in s\<close>: \<open>sub\<close> occurs somewhere in \<open>s\<close>\<close>
  "contains sub [] = (sub = [])"
| "contains sub (c # cs) = (prefix sub (c # cs) \<or> contains sub cs)"

fun split_first :: "string \<Rightarrow> string \<Rightarrow> string" where
  \<comment> \<open>\<^verbatim>\<open>s.split(sep, maxsplit=1)[0]\<close> for a non-empty \<open>sep\<close>: the part of \<open>s\<close>
      before the first occurrence of \<open>sep\<close>, the whole of \<open>s\<close> when there is none\<close>
  "split_first sep [] = []"
| "split_first sep (c # cs) = (if prefix sep (c # cs) then [] else c # split_first sep cs)"

fun insert_between :: "string \<Rightarrow> nat option \<Rightarrow> string \<Rightarrow> string" where
  \<comment> \<open>\<^verbatim>\<open>s.replace("", new, count)\<close>: the empty string occurs before every character
      and at the end (CPython 3.9 and later, also for an empty \<open>s\<close>)\<close>
  "insert_between new cnt [] = (if cnt = Some 0 then [] else new)"
| "insert_between new cnt (c # cs) =
     (if cnt = Some 0 then c # cs
      else new @ c # insert_between new (map_option (\<lambda>k. k - 1) cnt) cs)"

fun replace_occurrences :: "string \<Rightarrow> string \<Rightarrow> nat option \<Rightarrow> string \<Rightarrow> string" where
  \<comment> \<open>\<^verbatim>\<open>s.replace(old, new, count)\<close> for a non-empty \<open>old\<close>: occurrences are found
      from the left and do not overlap\<close>
  "replace_occurrences old new cnt [] = []"
| "replace_occurrences old new cnt (c # cs) =
     (if cnt = Some 0 then c # cs
      else if prefix old (c # cs)
        then new @ replace_occurrences old new (map_option (\<lambda>k. k - 1) cnt)
                     (drop (length old - 1) cs)
      else c # replace_occurrences old new cnt cs)"

definition py_replace :: "string \<Rightarrow> string \<Rightarrow> nat option \<Rightarrow> string \<Rightarrow> string" where
  \<comment> \<open>\<^verbatim>\<open>s.replace(old, new)\<close> is \<open>py_replace old new None s\<close>,
      \<^verbatim>\<open>s.replace(old, new, k)\<close> is \<open>py_replace old new (Some k) s\<close>\<close>
  "py_replace old new cnt s =
     (if old = [] then insert_between new cnt s else replace_occurrences old new cnt s)"

definition lstrip :: "char \<Rightarrow> string \<Rightarrow> string" where
  \<comment> \<open>\<^verbatim>\<open>s.lstrip(c)\<close> for a single character: every leading \<open>c\<close> is removed\<close>
  "lstrip c s = dropWhile (\<lambda>x. x = c) s"

definition slice_from_1 :: "string \<Rightarrow> string" where
  \<comment> \<open>\<^verbatim>\<open>s[1:]\<close>: the first character is dropped whatever it is; \<^verbatim>\<open>""[1:]\<close> is \<^verbatim>\<open>""\<close>\<close>
  "slice_from_1 s = drop 1 s"

section \<open>The fragment of Python's \<^verbatim>\<open>re\<close> module the code uses\<close>

text \<open>
  The three patterns of the source are \<^verbatim>\<open>"^https?://"\<close>, \<^verbatim>\<open>ending + "$"\<close> for
  the endings \<^verbatim>\<open>"/"\<close> and \<^verbatim>\<open>"/index.html"\<close>, and \<^verbatim>\<open>".html$"\<close>. They are built
  from literal characters, the wildcard \<^verbatim>\<open>.\<close> (any character but a newline), an
  optional character \<^verbatim>\<open>c?\<close>, and the assertions \<^verbatim>\<open>^\<close> and \<^verbatim>\<open>$\<close>. Without
  the MULTILINE flag \<^verbatim>\<open>$\<close> holds at the end of the string and just before a
  newline that is the last character.
\<close>

datatype re_atom = Lit char | AnyChar | Opt char | Bos | Eos

definition newline :: char where
  "newline = CHR 0x0A"

definition re_atom_of :: "char \<Rightarrow> re_atom" where
  "re_atom_of c =
     (if c = CHR ''.'' then AnyChar
      else if c = CHR ''^'' then Bos
      else if c = CHR ''$'' then Eos
      else Lit c)"

fun re_parse :: "string \<Rightarrow> re_atom list" where
  "re_parse [] = []"
| "re_parse [c] = [re_atom_of c]"
| "re_parse (c # d # cs) =
     (if d = CHR ''?'' then Opt c # re_parse cs else re_atom_of c # re_parse (d # cs))"

definition at_dollar :: "string \<Rightarrow> bool" where
  \<comment> \<open>the remaining input at a position where \<^verbatim>\<open>$\<close> holds\<close>
  "at_dollar s = (s = [] \<or> s = [newline])"

fun re_match_here :: "re_atom list \<Rightarrow> bool \<Rightarrow> string \<Rightarrow> string option" where
  \<comment> \<open>match the atoms against a prefix of the input; the flag says whether the position
      is the start of the string; the result is the input left after the match\<close>
  "re_match_here [] b s = Some s"
| "re_match_here (Bos # as) b s = (if b then re_match_here as b s else None)"
| "re_match_here (Eos # as) b s = (if at_dollar s then re_match_here as b s else None)"
| "re_match_here (Lit c # as) b s =
     (case s of [] \<Rightarrow> None
      | x # xs \<Rightarrow> if x = c then re_match_here as False xs else None)"
| "re_match_here (AnyChar # as) b s =
     (case s of [] \<Rightarrow> None
      | x # xs \<Rightarrow> if x \<noteq> newline then re_match_here as False xs else None)"
| "re_match_here (Opt c # as) b s =
     (case s of [] \<Rightarrow> re_match_here as b s
      | x # xs \<Rightarrow>
          if x = c
          then (case re_match_here as False xs of
                  Some r \<Rightarrow> Some r
                | None \<Rightarrow> re_match_here as b s)
          else re_match_here as b s)"

definition re_match :: "string \<Rightarrow> string \<Rightarrow> bool" where
  \<comment> \<open>truth value of \<^verbatim>\<open>re.match(pattern, s)\<close>: a match at the start of \<open>s\<close>\<close>
  "re_match pattern s = (re_match_here (re_parse pattern) True s \<noteq> None)"

function re_sub_loop :: "re_atom list \<Rightarrow> string \<Rightarrow> bool \<Rightarrow> string \<Rightarrow> string" where
  \<comment> \<open>\<^verbatim>\<open>re.sub\<close> scans from the left and replaces every non-overlapping match; after
      an empty match it copies one character and goes on\<close>
  "re_sub_loop as repl b s =
     (case re_match_here as b s of
        Some rest \<Rightarrow>
          if length rest < length s then repl @ re_sub_loop as repl False rest
          else repl @ (case s of [] \<Rightarrow> [] | c # cs \<Rightarrow> c # re_sub_loop as repl False cs)
      | None \<Rightarrow> (case s of [] \<Rightarrow> [] | c # cs \<Rightarrow> c # re_sub_loop as repl False cs))"
  by pat_completeness auto
termination
  by (relation "measure (\<lambda>(as, repl, b, s). length s)") auto

definition re_sub :: "string \<Rightarrow> string \<Rightarrow> string \<Rightarrow> string" where
  \<comment> \<open>\<^verbatim>\<open>re.sub(pattern, repl, s)\<close> for a replacement without backslashes\<close>
  "re_sub pattern repl s = re_sub_loop (re_parse pattern) repl True s"

declare re_sub_loop.simps [simp del]

section \<open>The Redirect model\<close>

text \<open>
  The fields of \<^verbatim>\<open>class Redirect(models.Model)\<close>; the project is kept abstract
  (it is only handed on to \<^verbatim>\<open>resolve_path\<close>), the two timestamps are left out.
\<close>

record 'p redirect =
  project :: 'p
  redirect_type :: string
  from_url :: string
  from_url_without_rest :: "string option"
  to_url :: string
  force :: "bool option"
  http_status :: int
  status :: bool

definition TYPE_CHOICES :: "string list" where
  \<comment> \<open>the stored values of \<^verbatim>\<open>TYPE_CHOICES\<close>, without their display labels\<close>
  "TYPE_CHOICES = [''prefix'', ''page'', ''exact'', ''sphinx_html'', ''sphinx_htmldir'']"

definition rest_token :: string where
  "rest_token = ''$rest''"

text \<open>
  \<^verbatim>\<open>resolve_path\<close> comes from \<^verbatim>\<open>readthedocs.core.resolver\<close>; it is a
  parameter of the model, called with the project, the language, the version slug and
  the filename.
\<close>

type_synonym 'p resolver = "'p \<Rightarrow> string option \<Rightarrow> string option \<Rightarrow> string \<Rightarrow> string"

datatype py_error = AttributeError | TypeError

definition save :: "'p redirect \<Rightarrow> 'p redirect" where
  \<comment> \<open>\<^verbatim>\<open>Redirect.save\<close>: the object as it is handed to \<^verbatim>\<open>super().save()\<close>\<close>
  "save r =
     (if redirect_type r = ''exact'' \<and> contains rest_token (from_url r)
      then r\<lparr>from_url_without_rest := Some (py_replace rest_token [] None (from_url r))\<rparr>
      else r)"

definition get_full_path ::
  "'p resolver \<Rightarrow> 'p redirect \<Rightarrow> string \<Rightarrow> string option \<Rightarrow> string option \<Rightarrow> bool \<Rightarrow> string"
where
  "get_full_path resolve_path r filename language version_slug allow_crossdomain =
     (if allow_crossdomain \<and> re_match ''^https?://'' filename then filename
      else resolve_path (project r) language version_slug filename)"

definition redirect_prefix ::
  "'p resolver \<Rightarrow> 'p redirect \<Rightarrow> string \<Rightarrow> string option \<Rightarrow> string option \<Rightarrow> string option
   \<Rightarrow> string option"
where
  "redirect_prefix resolve_path r path full_path language version_slug =
     (if startswith path (from_url r)
      then (let cut_path = drop (length (from_url r)) path
            in Some (get_full_path resolve_path r cut_path language version_slug False))
      else None)"

definition redirect_page ::
  "'p resolver \<Rightarrow> 'p redirect \<Rightarrow> string \<Rightarrow> string option \<Rightarrow> string option \<Rightarrow> string option
   \<Rightarrow> string option"
where
  "redirect_page resolve_path r path full_path language version_slug =
     (if path = from_url r
      then Some (get_full_path resolve_path r (lstrip CHR ''/'' (to_url r))
                   language version_slug True)
      else None)"

definition redirect_exact ::
  "'p redirect \<Rightarrow> string \<Rightarrow> string option \<Rightarrow> string option \<Rightarrow> string option
   \<Rightarrow> py_error + string option"
where
  \<comment> \<open>\<open>full_path\<close> defaults to \<^verbatim>\<open>None\<close> in \<^verbatim>\<open>get_redirect_path\<close>;
      \<^verbatim>\<open>None.startswith\<close> raises AttributeError\<close>
  "redirect_exact r path full_path language version_slug =
     (if full_path = Some (from_url r) then Inr (Some (to_url r))
      else if contains rest_token (from_url r)
      then (let match = split_first rest_token (from_url r)
            in case full_path of
                 None \<Rightarrow> Inl AttributeError
               | Some fp \<Rightarrow>
                   if startswith fp match
                   then Inr (Some (py_replace match (to_url r) (Some 1) fp))
                   else Inr None)
      else Inr None)"

fun sphinx_html_endings ::
  "'p resolver \<Rightarrow> 'p redirect \<Rightarrow> string \<Rightarrow> string option \<Rightarrow> string option \<Rightarrow> string list
   \<Rightarrow> string option"
where
  \<comment> \<open>the \<^verbatim>\<open>for ending in [...]\<close> loop of \<^verbatim>\<open>redirect_sphinx_html\<close>\<close>
  "sphinx_html_endings resolve_path r path language version_slug [] = None"
| "sphinx_html_endings resolve_path r path language version_slug (ending # endings) =
     (if endswith path ending
      then (let path' = slice_from_1 path;
                to = re_sub (ending @ ''$'') ''.html'' path'
            in Some (get_full_path resolve_path r to language version_slug False))
      else sphinx_html_endings resolve_path r path language version_slug endings)"

definition redirect_sphinx_html ::
  "'p resolver \<Rightarrow> 'p redirect \<Rightarrow> string \<Rightarrow> string option \<Rightarrow> string option \<Rightarrow> string option
   \<Rightarrow> string option"
where
  "redirect_sphinx_html resolve_path r path full_path language version_slug =
     sphinx_html_endings resolve_path r path language version_slug [''/'', ''/index.html'']"

definition redirect_sphinx_htmldir ::
  "'p resolver \<Rightarrow> 'p redirect \<Rightarrow> string \<Rightarrow> string option \<Rightarrow> string option \<Rightarrow> string option
   \<Rightarrow> string option"
where
  "redirect_sphinx_htmldir resolve_path r path full_path language version_slug =
     (if endswith path ''.html''
      then (let path' = slice_from_1 path;
                to = re_sub ''.html$'' ''/'' path'
            in Some (get_full_path resolve_path r to language version_slug False))
      else None)"

definition get_redirect_path ::
  "'p resolver \<Rightarrow> 'p redirect \<Rightarrow> string \<Rightarrow> string option \<Rightarrow> string option \<Rightarrow> string option
   \<Rightarrow> py_error + string option"
where
  \<comment> \<open>\<^verbatim>\<open>getattr(self, "redirect_" + type)\<close> finds the five methods and the field
      \<^verbatim>\<open>redirect_type\<close> (a string, calling it raises TypeError); any other name
      raises AttributeError\<close>
  "get_redirect_path resolve_path r path full_path language version_slug =
     (let t = redirect_type r in
      if t = ''prefix''
        then Inr (redirect_prefix resolve_path r path full_path language version_slug)
      else if t = ''page''
        then Inr (redirect_page resolve_path r path full_path language version_slug)
      else if t = ''exact''
        then redirect_exact r path full_path language version_slug
      else if t = ''sphinx_html''
        then Inr (redirect_sphinx_html resolve_path r path full_path language version_slug)
      else if t = ''sphinx_htmldir''
        then Inr (redirect_sphinx_htmldir resolve_path r path full_path language version_slug)
      else if t = ''type'' then Inl TypeError
      else Inl AttributeError)"

section \<open>Sequences of assignments and saves\<close>

datatype redirect_op =
    Set_redirect_type string
  | Set_from_url string
  | Set_to_url string
  | Save

fun apply_op :: "'p redirect \<Rightarrow> redirect_op \<Rightarrow> 'p redirect" where
  "apply_op r (Set_redirect_type t) = r\<lparr>redirect_type := t\<rparr>"
| "apply_op r (Set_from_url f) = r\<lparr>from_url := f\<rparr>"
| "apply_op r (Set_to_url t) = r\<lparr>to_url := t\<rparr>"
| "apply_op r Save = save r"

definition run_ops :: "'p redirect \<Rightarrow> redirect_op list \<Rightarrow> 'p redirect" where
  "run_ops r ops = foldl apply_op r ops"

definition derived_field_consistent :: "'p redirect \<Rightarrow> bool" where
  \<comment> \<open>the invariant of the data model, read generously: the derived field is unset, or
      it is \<open>from_url\<close> with the wildcard token stripped\<close>
  "derived_field_consistent r =
     (from_url_without_rest r = None \<or>
      from_url_without_rest r = Some (py_replace rest_token [] None (from_url r)))"

section \<open>Auxiliary definitions for the proofs\<close>

text \<open>
  The substitution of the Sphinx rules in the words of the specification: the ending
  is replaced where the string ends with it, anchored at the end of the string, and
  nothing happens otherwise.
\<close>

definition spec_replace_ending :: "string \<Rightarrow> string \<Rightarrow> string \<Rightarrow> string" where
  "spec_replace_ending ending repl s =
     (if suffix ending s then take (length s - length ending) s @ repl else s)"

text \<open>Atoms that consume exactly one character.\<close>

fun consumes_one :: "re_atom \<Rightarrow> bool" where
  "consumes_one (Lit c) = True"
| "consumes_one AnyChar = True"
| "consumes_one a = False"

text \<open>A rule with the defaults of the model's fields, and a sample path builder.\<close>

definition mk_redirect :: "'p \<Rightarrow> string \<Rightarrow> string \<Rightarrow> string \<Rightarrow> 'p redirect" where
  "mk_redirect p t f to =
     \<lparr>project = p, redirect_type = t, from_url = f, from_url_without_rest = None,
      to_url = to, force = Some False, http_status = 302, status = True\<rparr>"

definition example_resolver :: "unit resolver" where
  "example_resolver p language version_slug filename =
     ''/'' @ (case language of None \<Rightarrow> ''en'' | Some l \<Rightarrow> l) @ ''/'' @
     (case version_slug of None \<Rightarrow> ''latest'' | Some v \<Rightarrow> v) @ ''/'' @ filename"

section \<open>Facts about the string operations\<close>


lemma insert_between_zero: "insert_between new (Some 0) s = s"
  by (cases s) simp_all

lemma replace_occurrences_zero: "replace_occurrences old new (Some 0) s = s"
  by (cases s) simp_all

lemma py_replace_first_prefix:
  assumes "prefix m s"
  shows "py_replace m new (Some 1) s = new @ drop (length m) s"
proof (cases "m = []")
  case True
  then show ?thesis
    by (cases s) (simp_all add: py_replace_def insert_between_zero)
next
  case False
  with assms obtain c cs where s: "s = c # cs"
    by (cases s) auto
  from False have "drop (length m) (c # cs) = drop (length m - 1) cs"
    by (cases m) simp_all
  with assms False s show ?thesis
    by (simp add: py_replace_def replace_occurrences_zero)
qed

lemma contains_length: "contains sub s \<Longrightarrow> length sub \<le> length s"
  by (induction s) (auto dest: prefix_length_le)

lemma contains_iff_sublist: "contains sub s \<longleftrightarrow> (\<exists>a b. s = a @ sub @ b)"
proof (induction s)
  case Nil
  then show ?case by auto
next
  case (Cons c cs)
  show ?case
  proof
    assume "contains sub (c # cs)"
    then consider "prefix sub (c # cs)" | "contains sub cs" by auto
    then show "\<exists>a b. c # cs = a @ sub @ b"
    proof cases
      case 1
      then obtain b where "c # cs = sub @ b" by (auto simp: prefix_def)
      then have "c # cs = [] @ sub @ b" by simp
      then show ?thesis by blast
    next
      case 2
      with Cons obtain a b where "cs = a @ sub @ b" by blast
      then have "c # cs = (c # a) @ sub @ b" by simp
      then show ?thesis by blast
    qed
  next
    assume "\<exists>a b. c # cs = a @ sub @ b"
    then obtain a b where ab: "c # cs = a @ sub @ b" by blast
    show "contains sub (c # cs)"
    proof (cases a)
      case Nil
      with ab have "prefix sub (c # cs)" by (simp add: prefix_def)
      then show ?thesis by simp
    next
      case (Cons x a')
      with ab have "cs = a' @ sub @ b" by simp
      with Cons.IH have "contains sub cs" by blast
      then show ?thesis by simp
    qed
  qed
qed

lemma split_first_prefix:
  "contains sep s \<Longrightarrow> prefix (split_first sep s @ sep) s"
proof (induction s)
  case Nil
  then show ?case by simp
next
  case (Cons c cs)
  then show ?case by auto
qed

lemma split_first_is_first:
  assumes "sep \<noteq> []" "contains sep s"
  shows "\<not> contains sep (split_first sep s @ butlast sep)"
  using assms
proof (induction s)
  case Nil
  then show ?case by simp
next
  case (Cons c cs)
  show ?case
  proof (cases "prefix sep (c # cs)")
    case True
    have "length (butlast sep) < length sep" using Cons.prems(1) by (cases sep) simp_all
    then have "\<not> contains sep (butlast sep)"
      using contains_length by fastforce
    with True show ?thesis by simp
  next
    case False
    with Cons.prems have c: "contains sep cs" by simp
    with Cons.IH Cons.prems(1) have ih: "\<not> contains sep (split_first sep cs @ butlast sep)" by blast
    have "prefix (split_first sep cs @ sep) cs" using c by (rule split_first_prefix)
    then have "prefix (split_first sep cs @ butlast sep @ [last sep]) cs"
      using Cons.prems(1) by simp
    then have p: "prefix (c # split_first sep cs @ butlast sep) (c # cs)"
      by (metis Cons_prefix_Cons append_assoc append_prefixD)
    have "\<not> prefix sep (c # split_first sep cs @ butlast sep)"
      using False p prefix_order.trans by blast
    with ih False show ?thesis by simp
  qed
qed

lemma split_first_starts: "sep \<noteq> [] \<Longrightarrow> prefix sep s \<Longrightarrow> split_first sep s = []"
  by (cases s) simp_all

lemma prefix_contains: "prefix sub s \<Longrightarrow> contains sub s"
  by (cases s) simp_all


section \<open>Facts about the regular expressions\<close>

lemma re_match_here_lits:
  "re_match_here (map Lit (c # w) @ as) b s =
     (if prefix (c # w) s then re_match_here as False (drop (Suc (length w)) s) else None)"
proof (induction w arbitrary: c b s)
  case Nil
  then show ?case by (cases s) auto
next
  case (Cons d w)
  show ?case
  proof (cases s)
    case Nil
    then show ?thesis by simp
  next
    case (Cons x xs)
    with Cons.IH [of d False xs] show ?thesis by simp
  qed
qed

lemma prefix_append_drop:
  "prefix (a @ b) s \<longleftrightarrow> prefix a s \<and> prefix b (drop (length a) s)"
  by (auto simp: prefix_def)

lemma re_match_http_iff:
  "re_match ''^https?://'' s \<longleftrightarrow> prefix ''http://'' s \<or> prefix ''https://'' s"
proof -
  define tl where "tl = map Lit ''://'' @ ([]::re_atom list)"
  have tl: "re_match_here tl b u \<noteq> None \<longleftrightarrow> prefix ''://'' u" for b u
    unfolding tl_def by (subst re_match_here_lits) simp
  have opt: "re_match_here (Opt CHR ''s'' # tl) False u \<noteq> None
      \<longleftrightarrow> prefix ''s://'' u \<or> prefix ''://'' u" for u
  proof (cases u)
    case Nil
    then show ?thesis using tl [of False "[]"] by simp
  next
    case (Cons x xs)
    show ?thesis
    proof (cases "x = CHR ''s''")
      case True
      have "\<not> prefix ''://'' u" using Cons True by simp
      moreover have "re_match_here tl False u = None"
        using tl [of False u] calculation by blast
      ultimately show ?thesis
        using Cons True tl [of False xs] by (auto split: option.splits)
    next
      case False
      then have "\<not> prefix ''s://'' u" using Cons by simp
      then show ?thesis using Cons False tl [of False u] by simp
    qed
  qed
  have parse: "re_parse ''^https?://'' = Bos # map Lit ''http'' @ Opt CHR ''s'' # tl"
    unfolding tl_def by (simp add: re_atom_of_def)
  have "re_match_here (Bos # map Lit ''http'' @ Opt CHR ''s'' # tl) True s =
      (if prefix ''http'' s
       then re_match_here (Opt CHR ''s'' # tl) False (drop (length ''http'') s) else None)"
    by (simp only: re_match_here.simps(2) if_True re_match_here_lits)
       (simp del: re_match_here.simps)
  then have "re_match ''^https?://'' s \<longleftrightarrow>
     prefix ''http'' s \<and>
       (prefix ''s://'' (drop (length ''http'') s) \<or> prefix ''://'' (drop (length ''http'') s))"
    unfolding re_match_def parse using opt [of "drop (length ''http'') s"]
    by (simp only: split: if_splits) auto
  also have "\<dots> \<longleftrightarrow> prefix ''http://'' s \<or> prefix ''https://'' s"
    using prefix_append_drop [of "''http''" "''://''" s]
      prefix_append_drop [of "''http''" "''s://''" s] by auto
  finally show ?thesis .
qed

lemma re_match_here_fixed:
  "list_all consumes_one as \<Longrightarrow> re_match_here (as @ [Eos]) b s = Some rest \<Longrightarrow>
     length as \<le> length s \<and> rest = drop (length as) s \<and> at_dollar rest"
proof (induction as arbitrary: b s)
  case Nil
  then show ?case by (simp split: if_splits)
next
  case (Cons a as)
  then show ?case
    by (cases a; cases s) (auto split: if_splits)
qed

lemma re_match_here_literal:
  "newline \<notin> set e \<Longrightarrow> CHR ''^'' \<notin> set e \<Longrightarrow> CHR ''$'' \<notin> set e \<Longrightarrow> at_dollar tail \<Longrightarrow>
     re_match_here (map re_atom_of e @ [Eos]) b (e @ tail) = Some tail"
  by (induction e arbitrary: b) (auto simp: re_atom_of_def)

lemma consumes_one_literal:
  "CHR ''^'' \<notin> set e \<Longrightarrow> CHR ''$'' \<notin> set e \<Longrightarrow> list_all consumes_one (map re_atom_of e)"
  by (induction e) (auto simp: re_atom_of_def)

lemma re_sub_loop_short:
  "list_all consumes_one as \<Longrightarrow> length s < length as \<Longrightarrow>
     re_sub_loop (as @ [Eos]) repl b s = s"
proof (induction s arbitrary: b)
  case Nil
  then have "re_match_here (as @ [Eos]) b [] = None"
    using re_match_here_fixed [of as b "[]"] by (cases "re_match_here (as @ [Eos]) b []") auto
  then show ?case by (simp add: re_sub_loop.simps)
next
  case (Cons c cs)
  then have "re_match_here (as @ [Eos]) b (c # cs) = None"
    using re_match_here_fixed [of as b "c # cs"]
    by (cases "re_match_here (as @ [Eos]) b (c # cs)") auto
  moreover have "re_sub_loop (as @ [Eos]) repl False cs = cs"
    using Cons by simp
  ultimately show ?case by (simp add: re_sub_loop.simps [of _ _ _ "c # cs"])
qed

lemma re_sub_loop_suffix:
  assumes e: "e \<noteq> []" "newline \<notin> set e" "CHR ''^'' \<notin> set e" "CHR ''$'' \<notin> set e"
  shows "re_sub_loop (map re_atom_of e @ [Eos]) repl b (pre @ e) = pre @ repl"
proof (induction pre arbitrary: b)
  case Nil
  let ?as = "map re_atom_of e @ [Eos]"
  have m: "re_match_here ?as b e = Some []"
    using re_match_here_literal [of e "[]" b] e by (simp add: at_dollar_def)
  have "re_sub_loop ?as repl False [] = []"
    using re_sub_loop_short [of "map re_atom_of e" "[]" repl False] e
    by (simp add: consumes_one_literal)
  with m e(1) show ?case by (simp add: re_sub_loop.simps [of _ _ _ e])
next
  case (Cons c pre)
  let ?as = "map re_atom_of e @ [Eos]"
  have "re_match_here ?as b (c # pre @ e) = None"
  proof (cases "re_match_here ?as b (c # pre @ e)")
    case None
    then show ?thesis .
  next
    case (Some rest)
    have "list_all consumes_one (map re_atom_of e)"
      using e by (simp add: consumes_one_literal)
    from re_match_here_fixed [OF this Some]
    have r: "rest = drop (length e) (c # pre @ e)" "at_dollar rest"
      by (simp, blast)
    have "length rest = Suc (length pre)" using r(1) by simp
    with r(2) have "rest = [newline]" by (auto simp: at_dollar_def)
    moreover have "suffix rest (c # pre @ e)" using r(1) by (simp add: suffix_drop)
    ultimately obtain zs where "c # pre @ e = zs @ [newline]"
      by (auto simp: suffix_def)
    then have "last (c # pre @ e) = newline"
      by (metis last_snoc)
    then have "last e = newline" using e(1) by simp
    with e(1,2) show ?thesis using last_in_set by metis
  qed
  with Cons.IH [of False] show ?case
    by (simp add: re_sub_loop.simps [of _ _ _ "c # pre @ e"])
qed

lemma re_sub_loop_guarded:
  assumes e: "e \<noteq> []" "newline \<notin> set e" "CHR ''^'' \<notin> set e" "CHR ''$'' \<notin> set e"
    and g: "suffix e (x # s)"
  shows "re_sub_loop (map re_atom_of e @ [Eos]) repl b s = spec_replace_ending e repl s"
proof (cases "suffix e s")
  case True
  then obtain pre where s: "s = pre @ e" by (auto simp: suffix_def)
  then show ?thesis using re_sub_loop_suffix [OF e, of repl b pre] True
    by (simp add: spec_replace_ending_def)
next
  case False
  from g obtain p where p: "x # s = p @ e" by (auto simp: suffix_def)
  have "p = []"
  proof (cases p)
    case Nil then show ?thesis .
  next
    case (Cons y p')
    with p have "s = p' @ e" by simp
    with False show ?thesis by (simp add: suffix_def)
  qed
  with p have "length s < length e" by (cases e) auto
  then show ?thesis
    using re_sub_loop_short [of "map re_atom_of e" s repl b] e False
    by (simp add: consumes_one_literal spec_replace_ending_def)
qed


section \<open>The two Sphinx rules as equations\<close>

lemma suffix_endswith_tail:
  "spec_replace_ending e repl (pre @ e) = pre @ repl"
  by (simp add: spec_replace_ending_def suffix_def)

lemma get_full_path_no_crossdomain:
  "get_full_path rp r f language version_slug False = rp (project r) language version_slug f"
  by (simp add: get_full_path_def)

lemma re_sub_slash:
  assumes "suffix ''/'' (x # s)"
  shows "re_sub (''/'' @ ''$'') repl s = spec_replace_ending ''/'' repl s"
proof -
  have "re_parse (''/'' @ ''$'') = map re_atom_of ''/'' @ [Eos]"
    by (simp add: re_atom_of_def)
  then show ?thesis
    using re_sub_loop_guarded [of "''/''" x s repl True] assms
    by (simp add: re_sub_def newline_def)
qed

lemma re_sub_index_html:
  assumes "suffix ''/index.html'' (x # s)"
  shows "re_sub (''/index.html'' @ ''$'') repl s = spec_replace_ending ''/index.html'' repl s"
proof -
  have "re_parse (''/index.html'' @ ''$'') = map re_atom_of ''/index.html'' @ [Eos]"
    by (simp add: re_atom_of_def)
  then show ?thesis
    using re_sub_loop_guarded [of "''/index.html''" x s repl True] assms
    by (simp add: re_sub_def newline_def)
qed

lemma re_sub_dot_html:
  assumes "suffix ''.html'' (x # s)"
  shows "re_sub ''.html$'' repl s = spec_replace_ending ''.html'' repl s"
proof -
  have "re_parse ''.html$'' = map re_atom_of ''.html'' @ [Eos]"
    by (simp add: re_atom_of_def)
  then show ?thesis
    using re_sub_loop_guarded [of "''.html''" x s repl True] assms
    by (simp add: re_sub_def newline_def)
qed

lemma redirect_sphinx_html_eq:
  "redirect_sphinx_html rp r path full_path language version_slug =
     (if endswith path ''/''
      then Some (rp (project r) language version_slug
                   (spec_replace_ending ''/'' ''.html'' (slice_from_1 path)))
      else if endswith path ''/index.html''
      then Some (rp (project r) language version_slug
                   (spec_replace_ending ''/index.html'' ''.html'' (slice_from_1 path)))
      else None)"
proof (cases path)
  case Nil
  then show ?thesis
    by (simp add: redirect_sphinx_html_def endswith_def)
next
  case (Cons x s)
  have a: "re_sub ''/$'' ''.html'' s = spec_replace_ending ''/'' ''.html'' s"
    if "suffix ''/'' (x # s)"
    using re_sub_slash [OF that, of "''.html''"] by simp
  have b: "re_sub ''/index.html$'' ''.html'' s = spec_replace_ending ''/index.html'' ''.html'' s"
    if "suffix ''/index.html'' (x # s)"
    using re_sub_index_html [OF that, of "''.html''"] by simp
  show ?thesis
    unfolding redirect_sphinx_html_def sphinx_html_endings.simps Let_def
      get_full_path_no_crossdomain endswith_def Cons slice_from_1_def
    using a b by (simp only: drop_Suc_Cons drop_0 One_nat_def append_Cons append_Nil split: if_splits) simp
qed

lemma redirect_sphinx_htmldir_eq:
  "redirect_sphinx_htmldir rp r path full_path language version_slug =
     (if endswith path ''.html''
      then Some (rp (project r) language version_slug
                   (spec_replace_ending ''.html'' ''/'' (slice_from_1 path)))
      else None)"
proof (cases path)
  case Nil
  then show ?thesis
    by (simp add: redirect_sphinx_htmldir_def endswith_def)
next
  case (Cons x s)
  have a: "re_sub ''.html$'' ''/'' s = spec_replace_ending ''.html'' ''/'' s"
    if "suffix ''.html'' (x # s)"
    using re_sub_dot_html [OF that] by simp
  show ?thesis
    unfolding redirect_sphinx_htmldir_def Let_def
      get_full_path_no_crossdomain endswith_def Cons slice_from_1_def
    using a by (simp only: drop_Suc_Cons drop_0 One_nat_def split: if_splits) simp
qed

section \<open>Further facts about replacement and suffixes\<close>

lemma suffix_single: "suffix [c] s \<longleftrightarrow> s \<noteq> [] \<and> last s = c"
  by (cases s rule: rev_cases) auto

lemma replace_occurrences_absent:
  "\<not> contains old s \<Longrightarrow> replace_occurrences old new cnt s = s"
  by (induction s) auto

lemma replace_occurrences_first:
  assumes "old \<noteq> []"
  shows "\<not> contains old (a @ butlast old) \<Longrightarrow>
     replace_occurrences old new None (a @ old @ b) = a @ new @ replace_occurrences old new None b"
proof (induction a)
  case Nil
  from assms obtain c cs where old: "old = c # cs" by (cases old) auto
  then show ?case by simp
next
  case (Cons x a)
  from Cons.prems have n: "\<not> prefix old (x # a @ butlast old)"
    and r: "\<not> contains old (a @ butlast old)" by simp_all
  have "\<not> prefix old (x # a @ old @ b)"
  proof
    assume p: "prefix old (x # a @ old @ b)"
    have q: "prefix (butlast old) (x # a @ butlast old)"
    proof -
      have "prefix (butlast old) old" by (rule prefixeq_butlast)
      with p have "prefix (butlast old) ((x # a) @ old @ b)"
        using prefix_order.trans by fastforce
      moreover have "prefix ((x # a) @ butlast old) ((x # a) @ old @ b)"
        using prefixeq_butlast [of old] by (simp add: prefix_def) (metis append.assoc)
      moreover have "length (butlast old) \<le> length ((x # a) @ butlast old)" by simp
      ultimately show ?thesis
        using prefix_length_prefix by fastforce
    qed
    have "length old \<le> length (x # a @ butlast old)" using assms by (cases old) simp_all
    moreover have "prefix (x # a @ butlast old) (x # a @ old @ b)"
      using prefixeq_butlast [of old] by (simp add: prefix_def) (metis append.assoc)
    ultimately have "prefix old (x # a @ butlast old)"
      using p prefix_length_prefix by blast
    with n show False ..
  qed
  with Cons.IH [OF r] show ?case by simp
qed

lemma py_replace_single_token:
  assumes "old \<noteq> []" "\<not> contains old (a @ butlast old)" "\<not> contains old b"
  shows "py_replace old [] None (a @ old @ b) = a @ b"
  using assms replace_occurrences_first [OF assms(1,2), of "[]" b]
  by (simp add: py_replace_def replace_occurrences_absent)


lemma slice_from_1_slash: "slice_from_1 (CHR ''/'' # rest) = rest"
  by (simp add: slice_from_1_def)

lemma run_ops_snoc: "run_ops r (ops @ [x]) = apply_op (run_ops r ops) x"
  by (simp add: run_ops_def)

section \<open>The claims\<close>

text \<open>
  C1. A rule of type Exact whose \<open>from_url\<close> does not contain the wildcard token
  \<^verbatim>\<open>$rest\<close> returns \<open>to_url\<close> verbatim when \<open>full_path\<close> equals \<open>from_url\<close> and no
  match otherwise. The result is the same for every \<open>path\<close>, language, version and path
  builder (the builder is never called), and an empty \<open>to_url\<close> is a destination
  (\<open>Some []\<close>), distinct from no match (\<open>None\<close>).
\<close>

theorem exact_without_wildcard:
  assumes "redirect_type r = ''exact''"
    and "\<not> contains rest_token (from_url r)"
  shows "get_redirect_path resolve_path r path (Some full_path) language version_slug =
           Inr (if full_path = from_url r then Some (to_url r) else None)
       \<and> get_redirect_path resolve_path r path (Some full_path) language version_slug =
           get_redirect_path resolve_path' r path' (Some full_path) language' version_slug'"
  using assms by (simp add: get_redirect_path_def redirect_exact_def)

theorem exact_without_wildcard_witness:
  "redirect_type (mk_redirect () ''exact'' ''/old/'' '''') = ''exact''
   \<and> \<not> contains rest_token (from_url (mk_redirect () ''exact'' ''/old/'' ''''))
   \<and> get_redirect_path example_resolver (mk_redirect () ''exact'' ''/old/'' '''')
        ''/x'' (Some ''/old/'') None None = Inr (Some '''')
   \<and> get_redirect_path example_resolver (mk_redirect () ''exact'' ''/old/'' '''')
        ''/x'' (Some ''/old/x'') None None = Inr None"
proof -
  let ?r = "mk_redirect () ''exact'' ''/old/'' ''''"
  have t: "redirect_type ?r = ''exact''"
    by (simp add: mk_redirect_def)
  have w: "\<not> contains rest_token (from_url ?r)"
    by (simp add: mk_redirect_def rest_token_def)
  from exact_without_wildcard [OF t w, of example_resolver "''/x''" "''/old/''" None None]
    exact_without_wildcard [OF t w, of example_resolver "''/x''" "''/old/x''" None None]
  show ?thesis using t w by (simp add: mk_redirect_def)
qed

text \<open>
  C2. A rule of type Exact whose \<open>from_url\<close> contains the wildcard token, at a
  \<open>full_path\<close> different from \<open>from_url\<close>: \<open>match\<close> is the part of \<open>from_url\<close> before the
  token; when \<open>full_path\<close> starts with \<open>match\<close> the result is \<open>full_path\<close> with the first
  occurrence of \<open>match\<close> replaced by \<open>to_url\<close>, which is \<open>to_url\<close> followed by the rest
  of \<open>full_path\<close> untouched; otherwise there is no match. The instance after it evaluates the rule
  \<^verbatim>\<open>/docs/$rest\<close> to \<^verbatim>\<open>/v2/\<close> at \<^verbatim>\<open>/docs/api/foo\<close> and at \<^verbatim>\<open>/other/api/foo\<close>.
\<close>

theorem exact_with_wildcard:
  assumes "redirect_type r = ''exact''"
    and "contains rest_token (from_url r)"
    and "full_path \<noteq> from_url r"
  shows "prefix (split_first rest_token (from_url r) @ rest_token) (from_url r)
       \<and> get_redirect_path resolve_path r path (Some full_path) language version_slug =
           Inr (if startswith full_path (split_first rest_token (from_url r))
                then Some (py_replace (split_first rest_token (from_url r)) (to_url r) (Some 1)
                             full_path)
                else None)
       \<and> (startswith full_path (split_first rest_token (from_url r)) \<longrightarrow>
            py_replace (split_first rest_token (from_url r)) (to_url r) (Some 1) full_path =
              to_url r @ drop (length (split_first rest_token (from_url r))) full_path)"
  using assms
    py_replace_first_prefix [of "split_first rest_token (from_url r)" full_path "to_url r"]
  by (simp add: get_redirect_path_def redirect_exact_def startswith_def split_first_prefix)

theorem exact_with_wildcard_witness:
  "redirect_type (mk_redirect () ''exact'' ''/docs/$rest'' ''/v2/'') = ''exact''
   \<and> contains rest_token (from_url (mk_redirect () ''exact'' ''/docs/$rest'' ''/v2/''))
   \<and> ''/docs/api/foo'' \<noteq> from_url (mk_redirect () ''exact'' ''/docs/$rest'' ''/v2/'')
   \<and> ''/other/api/foo'' \<noteq> from_url (mk_redirect () ''exact'' ''/docs/$rest'' ''/v2/'')
   \<and> get_redirect_path example_resolver (mk_redirect () ''exact'' ''/docs/$rest'' ''/v2/'')
        ''/api/foo'' (Some ''/docs/api/foo'') None None = Inr (Some ''/v2/api/foo'')
   \<and> get_redirect_path example_resolver (mk_redirect () ''exact'' ''/docs/$rest'' ''/v2/'')
        ''/api/foo'' (Some ''/other/api/foo'') None None = Inr None"
proof -
  let ?r = "mk_redirect () ''exact'' ''/docs/$rest'' ''/v2/''"
  have t: "redirect_type ?r = ''exact''"
    by (simp add: mk_redirect_def)
  have w: "contains rest_token (from_url ?r)"
    by (simp add: mk_redirect_def rest_token_def)
  have n1: "''/docs/api/foo'' \<noteq> from_url ?r" and n2: "''/other/api/foo'' \<noteq> from_url ?r"
    by (simp_all add: mk_redirect_def)
  have m: "split_first rest_token (from_url ?r) = ''/docs/''"
    by (simp add: mk_redirect_def rest_token_def)
  from exact_with_wildcard [OF t w n1, of example_resolver "''/api/foo''" None None]
    exact_with_wildcard [OF t w n2, of example_resolver "''/api/foo''" None None]
  show ?thesis using t w n1 n2
    by (simp add: m startswith_def) (simp add: mk_redirect_def)
qed

text \<open>
  C3. A rule of type Prefix returns no match when \<open>path\<close> does not start with
  \<open>from_url\<close>. When it does, the result is the path builder's result, called through
  \<open>get_full_path\<close> with \<open>allow_crossdomain\<close> false, for \<open>path\<close> with the \<open>from_url\<close> prefix
  removed: for \<open>path = from_url @ rest\<close> the filename handed to the builder is \<open>rest\<close>.
\<close>

theorem prefix_rule:
  assumes "redirect_type r = ''prefix''"
  shows "get_redirect_path resolve_path r path full_path language version_slug =
           Inr (if startswith path (from_url r)
                then Some (get_full_path resolve_path r (drop (length (from_url r)) path)
                             language version_slug False)
                else None)
       \<and> get_full_path resolve_path r filename language version_slug False =
           resolve_path (project r) language version_slug filename
       \<and> get_redirect_path resolve_path r (from_url r @ rest) full_path language version_slug =
           Inr (Some (resolve_path (project r) language version_slug rest))"
  using assms
  by (simp add: get_redirect_path_def redirect_prefix_def startswith_def get_full_path_def)

theorem prefix_rule_witness:
  "redirect_type (mk_redirect () ''prefix'' ''/old'' '''') = ''prefix''
   \<and> get_redirect_path example_resolver (mk_redirect () ''prefix'' ''/old'' '''')
        ''/old/page.html'' (Some ''/en/latest/old/page.html'') None None =
          Inr (Some ''/en/latest//page.html'')
   \<and> get_redirect_path example_resolver (mk_redirect () ''prefix'' ''/old'' '''')
        ''/new/page.html'' (Some ''/en/latest/new/page.html'') None None = Inr None"
proof -
  let ?r = "mk_redirect () ''prefix'' ''/old'' ''''"
  have t: "redirect_type ?r = ''prefix''"
    by (simp add: mk_redirect_def)
  have f: "from_url ?r = ''/old''"
    by (simp add: mk_redirect_def)
  from prefix_rule [OF t, of example_resolver "''/old/page.html''"
      "Some ''/en/latest/old/page.html''" None None]
    prefix_rule [OF t, of example_resolver "''/new/page.html''"
      "Some ''/en/latest/new/page.html''" None None]
  show ?thesis using t
    by (simp add: f startswith_def get_full_path_def example_resolver_def)
qed

text \<open>
  C4. A rule of type Page returns a destination exactly when \<open>path\<close> equals \<open>from_url\<close>;
  the destination is \<open>get_full_path\<close> with \<open>allow_crossdomain\<close> true applied to \<open>to_url\<close>
  with its leading \<^verbatim>\<open>/\<close> characters stripped (\<^verbatim>\<open>lstrip\<close> removes all of them). For
  any other \<open>path\<close> there is no match, whatever \<open>full_path\<close> is.
\<close>

theorem page_rule:
  assumes "redirect_type r = ''page''"
  shows "get_redirect_path resolve_path r path full_path language version_slug =
           Inr (if path = from_url r
                then Some (get_full_path resolve_path r (lstrip CHR ''/'' (to_url r))
                             language version_slug True)
                else None)
       \<and> ((\<exists>destination.
              get_redirect_path resolve_path r path full_path language version_slug =
                Inr (Some destination)) \<longleftrightarrow> path = from_url r)
       \<and> (path \<noteq> from_url r \<longrightarrow>
            get_redirect_path resolve_path r path full_path language version_slug = Inr None)"
  using assms by (simp add: get_redirect_path_def redirect_page_def)

theorem page_rule_witness:
  "redirect_type (mk_redirect () ''page'' ''/install.html'' ''/tutorial/install.html'') = ''page''
   \<and> get_redirect_path example_resolver
        (mk_redirect () ''page'' ''/install.html'' ''/tutorial/install.html'')
        ''/install.html'' None None None = Inr (Some ''/en/latest/tutorial/install.html'')
   \<and> ''/other.html'' \<noteq> from_url (mk_redirect () ''page'' ''/install.html'' ''/tutorial/install.html'')
   \<and> get_redirect_path example_resolver
        (mk_redirect () ''page'' ''/install.html'' ''/tutorial/install.html'')
        ''/other.html'' (Some ''/install.html'') None None = Inr None"
proof -
  let ?r = "mk_redirect () ''page'' ''/install.html'' ''/tutorial/install.html''"
  have t: "redirect_type ?r = ''page''"
    by (simp add: mk_redirect_def)
  have f: "from_url ?r = ''/install.html''" and u: "to_url ?r = ''/tutorial/install.html''"
    by (simp_all add: mk_redirect_def)
  have m: "\<not> re_match ''^https?://'' ''tutorial/install.html''"
    by (simp add: re_match_http_iff)
  from page_rule [OF t, of example_resolver "''/install.html''" None None None]
    page_rule [OF t, of example_resolver "''/other.html''" "Some ''/install.html''" None None]
  show ?thesis using t m
    by (simp add: f u lstrip_def get_full_path_def example_resolver_def)
qed

text \<open>
  C9. \<open>get_full_path\<close> returns \<open>filename\<close> unchanged when \<open>allow_crossdomain\<close> is true
  and \<open>filename\<close> matches \<^verbatim>\<open>^https?://\<close>, that is, starts with \<^verbatim>\<open>http://\<close> or
  \<^verbatim>\<open>https://\<close>; in every other case it is the path builder's result for the
  project, language, version and filename. The function is total: with a path
  builder that returns a string it returns a string on every input.
\<close>

theorem get_full_path_cases:
  "(allow_crossdomain \<and> re_match ''^https?://'' filename \<longrightarrow>
      get_full_path resolve_path r filename language version_slug allow_crossdomain = filename)
   \<and> (\<not> (allow_crossdomain \<and> re_match ''^https?://'' filename) \<longrightarrow>
      get_full_path resolve_path r filename language version_slug allow_crossdomain =
        resolve_path (project r) language version_slug filename)
   \<and> (re_match ''^https?://'' filename \<longleftrightarrow>
        startswith filename ''http://'' \<or> startswith filename ''https://'')"
  by (auto simp: get_full_path_def re_match_http_iff startswith_def)

theorem get_full_path_cases_witness:
  "re_match ''^https?://'' ''https://example.org/a''
   \<and> get_full_path example_resolver (mk_redirect () ''page'' ''/a'' ''https://example.org/a'')
        ''https://example.org/a'' None None True = ''https://example.org/a''
   \<and> get_full_path example_resolver (mk_redirect () ''page'' ''/a'' ''https://example.org/a'')
        ''https://example.org/a'' None None False = ''/en/latest/https://example.org/a''
   \<and> \<not> re_match ''^https?://'' ''a/https://example.org''
   \<and> get_full_path example_resolver (mk_redirect () ''page'' ''/a'' ''https://example.org/a'')
        ''a/https://example.org'' None None True = ''/en/latest/a/https://example.org''"
proof -
  let ?r = "mk_redirect () ''page'' ''/a'' ''https://example.org/a''"
  have m: "re_match ''^https?://'' ''https://example.org/a''"
    and n: "\<not> re_match ''^https?://'' ''a/https://example.org''"
    by (simp_all add: re_match_http_iff)
  from get_full_path_cases [of True "''https://example.org/a''" example_resolver ?r None None]
    get_full_path_cases [of False "''https://example.org/a''" example_resolver ?r None None]
    get_full_path_cases [of True "''a/https://example.org''" example_resolver ?r None None]
  show ?thesis using m n
    by (simp add: example_resolver_def startswith_def)
qed

text \<open>
  C10. A rule of type Exact whose \<open>from_url\<close> begins with the wildcard token, at a
  \<open>full_path\<close> different from \<open>from_url\<close>: the part before the token is empty, the rule
  matches unconditionally, and the destination is \<open>to_url\<close> followed by the whole
  unmodified \<open>full_path\<close>.
\<close>

theorem exact_leading_wildcard:
  assumes "redirect_type r = ''exact''"
    and "startswith (from_url r) rest_token"
    and "full_path \<noteq> from_url r"
  shows "split_first rest_token (from_url r) = []
       \<and> get_redirect_path resolve_path r path (Some full_path) language version_slug =
           Inr (Some (to_url r @ full_path))"
proof -
  from assms(2) have p: "prefix rest_token (from_url r)"
    by (simp add: startswith_def)
  then have c: "contains rest_token (from_url r)"
    by (rule prefix_contains)
  have m: "split_first rest_token (from_url r) = []"
    using p by (simp add: split_first_starts rest_token_def)
  have "py_replace [] (to_url r) (Some 1) full_path = to_url r @ full_path"
    using py_replace_first_prefix [of "[]" full_path "to_url r"] by simp
  with assms(1,3) c m show ?thesis
    by (simp add: get_redirect_path_def redirect_exact_def startswith_def)
qed

theorem exact_leading_wildcard_witness:
  "redirect_type (mk_redirect () ''exact'' ''$rest'' ''https://new.example.org'') = ''exact''
   \<and> startswith (from_url (mk_redirect () ''exact'' ''$rest'' ''https://new.example.org''))
        rest_token
   \<and> ''/en/latest/a.html'' \<noteq> from_url (mk_redirect () ''exact'' ''$rest'' ''https://new.example.org'')
   \<and> get_redirect_path example_resolver
        (mk_redirect () ''exact'' ''$rest'' ''https://new.example.org'')
        ''/a.html'' (Some ''/en/latest/a.html'') None None =
          Inr (Some ''https://new.example.org/en/latest/a.html'')
   \<and> [] \<noteq> from_url (mk_redirect () ''exact'' ''$rest'' ''https://new.example.org'')
   \<and> get_redirect_path example_resolver
        (mk_redirect () ''exact'' ''$rest'' ''https://new.example.org'')
        ''/a.html'' (Some []) None None = Inr (Some ''https://new.example.org'')"
proof -
  let ?r = "mk_redirect () ''exact'' ''$rest'' ''https://new.example.org''"
  have t: "redirect_type ?r = ''exact''"
    by (simp add: mk_redirect_def)
  have w: "startswith (from_url ?r) rest_token"
    by (simp add: mk_redirect_def rest_token_def startswith_def)
  have n1: "''/en/latest/a.html'' \<noteq> from_url ?r" and n2: "[] \<noteq> from_url ?r"
    by (simp_all add: mk_redirect_def)
  have u: "to_url ?r = ''https://new.example.org''"
    by (simp add: mk_redirect_def)
  from exact_leading_wildcard [OF t w n1, of example_resolver "''/a.html''" None None]
    exact_leading_wildcard [OF t w n2, of example_resolver "''/a.html''" None None]
  show ?thesis using t w n1 n2
    by (simp add: u)
qed

text \<open>
  C5. A rule of type \<^verbatim>\<open>sphinx_html\<close>: when \<open>path\<close> ends with \<^verbatim>\<open>/\<close> or with
  \<^verbatim>\<open>/index.html\<close>, the result is the path builder's result (\<open>allow_crossdomain\<close>
  false) for \<open>path\<close> with its leading character stripped and then the matched ending
  replaced by \<^verbatim>\<open>.html\<close> by a substitution anchored at the end of the string; when
  \<open>path\<close> ends with neither, there is no match. For \<open>path\<close> of the form
  \<^verbatim>\<open>/stem/\<close> or \<^verbatim>\<open>/stem/index.html\<close> the filename is \<^verbatim>\<open>stem.html\<close>, so
  \<^verbatim>\<open>/guide/index.html\<close> gives \<^verbatim>\<open>guide.html\<close>, and \<^verbatim>\<open>/guide/other.html\<close> gives no
  match. The regular expression of the source (with its wildcard \<^verbatim>\<open>.\<close>, its \<^verbatim>\<open>$\<close>
  and its replacement of every match) agrees with the anchored replacement of the
  literal ending on every path that passes the \<^verbatim>\<open>endswith\<close> test. Where the stripped
  path no longer ends with the ending (\<open>path\<close> is \<^verbatim>\<open>/\<close> or \<^verbatim>\<open>/index.html\<close>) the
  substitution finds nothing and the filename is the stripped path, as the instance
  shows.
\<close>

theorem sphinx_html_rule:
  assumes "redirect_type r = ''sphinx_html''"
  shows "get_redirect_path resolve_path r path full_path language version_slug =
           Inr (if endswith path ''/''
                then Some (get_full_path resolve_path r
                             (spec_replace_ending ''/'' ''.html'' (slice_from_1 path))
                             language version_slug False)
                else if endswith path ''/index.html''
                then Some (get_full_path resolve_path r
                             (spec_replace_ending ''/index.html'' ''.html'' (slice_from_1 path))
                             language version_slug False)
                else None)
       \<and> slice_from_1 (CHR ''/'' # rest) = rest
       \<and> get_redirect_path resolve_path r (''/'' @ stem @ ''/'') full_path language version_slug =
           Inr (Some (resolve_path (project r) language version_slug (stem @ ''.html'')))
       \<and> get_redirect_path resolve_path r (''/'' @ stem @ ''/index.html'') full_path
            language version_slug =
           Inr (Some (resolve_path (project r) language version_slug (stem @ ''.html'')))
       \<and> get_redirect_path resolve_path r ''/guide/index.html'' full_path language version_slug =
           Inr (Some (resolve_path (project r) language version_slug ''guide.html''))
       \<and> get_redirect_path resolve_path r ''/guide/other.html'' full_path language version_slug =
           Inr None"
proof -
  have g: "get_redirect_path resolve_path r p full_path language version_slug =
      Inr (redirect_sphinx_html resolve_path r p full_path language version_slug)" for p
    using assms by (simp add: get_redirect_path_def)
  have a: "get_redirect_path resolve_path r (''/'' @ s @ ''/'') full_path language version_slug =
      Inr (Some (resolve_path (project r) language version_slug (s @ ''.html'')))" for s
  proof -
    have "suffix ''/'' (''/'' @ s @ ''/'')"
      by (simp add: suffix_single)
    moreover have "slice_from_1 (''/'' @ s @ ''/'') = s @ ''/''"
      by (simp add: slice_from_1_def)
    ultimately show ?thesis
      unfolding g redirect_sphinx_html_eq endswith_def
      by (simp only: suffix_endswith_tail if_True)
  qed
  have b: "get_redirect_path resolve_path r (''/'' @ s @ ''/index.html'') full_path
        language version_slug =
      Inr (Some (resolve_path (project r) language version_slug (s @ ''.html'')))" for s
  proof -
    have "\<not> suffix ''/'' (''/'' @ s @ ''/index.html'')"
      by (simp add: suffix_single)
    moreover have "suffix ''/index.html'' (''/'' @ s @ ''/index.html'')"
      by (metis append_assoc suffixI)
    moreover have "slice_from_1 (''/'' @ s @ ''/index.html'') = s @ ''/index.html''"
      by (simp add: slice_from_1_def)
    ultimately show ?thesis
      unfolding g redirect_sphinx_html_eq endswith_def
      by (simp only: suffix_endswith_tail if_True if_False)
  qed
  have c: "get_redirect_path resolve_path r ''/guide/other.html'' full_path language version_slug =
      Inr None"
    unfolding g redirect_sphinx_html_eq endswith_def
    by (simp add: suffix_to_prefix)
  show ?thesis
    using a [of stem] b [of stem] b [of "''guide''"] c
    by (simp add: g redirect_sphinx_html_eq get_full_path_no_crossdomain slice_from_1_slash)
qed

theorem sphinx_html_rule_witness:
  "redirect_type (mk_redirect () ''sphinx_html'' [] []) = ''sphinx_html''
   \<and> get_redirect_path example_resolver (mk_redirect () ''sphinx_html'' [] [])
        ''/guide/index.html'' None None None = Inr (Some ''/en/latest/guide.html'')
   \<and> get_redirect_path example_resolver (mk_redirect () ''sphinx_html'' [] [])
        ''/guide/'' None None None = Inr (Some ''/en/latest/guide.html'')
   \<and> get_redirect_path example_resolver (mk_redirect () ''sphinx_html'' [] [])
        ''/guide/other.html'' None None None = Inr None
   \<and> get_redirect_path example_resolver (mk_redirect () ''sphinx_html'' [] [])
        ''/'' None None None = Inr (Some ''/en/latest/'')
   \<and> get_redirect_path example_resolver (mk_redirect () ''sphinx_html'' [] [])
        ''/index.html'' None None None = Inr (Some ''/en/latest/index.html'')"
proof -
  let ?r = "mk_redirect () ''sphinx_html'' [] []"
  have t: "redirect_type ?r = ''sphinx_html''"
    by (simp add: mk_redirect_def)
  have e: "endswith ''/'' ''/''" "\<not> endswith ''/index.html'' ''/''"
    "endswith ''/index.html'' ''/index.html''"
    by (simp_all add: endswith_def suffix_to_prefix)
  have s: "spec_replace_ending ''/'' ''.html'' (slice_from_1 ''/'') = []"
    "spec_replace_ending ''/index.html'' ''.html'' (slice_from_1 ''/index.html'') = ''index.html''"
    by (simp_all add: spec_replace_ending_def slice_from_1_def suffix_to_prefix)
  note th = sphinx_html_rule [OF t, of example_resolver _ None None None "[]" "''guide''"]
  have r1: "get_redirect_path example_resolver ?r ''/'' None None None =
      Inr (Some (example_resolver (project ?r) None None []))"
    using th [of "''/''", THEN conjunct1]
    by (simp add: e s get_full_path_no_crossdomain)
  have r2: "get_redirect_path example_resolver ?r ''/index.html'' None None None =
      Inr (Some (example_resolver (project ?r) None None ''index.html''))"
    using th [of "''/index.html''", THEN conjunct1]
    by (simp add: e s get_full_path_no_crossdomain)
  note c3 = th [of "[]", THEN conjunct2, THEN conjunct2, THEN conjunct1]
  note c5 = th [of "[]", THEN conjunct2, THEN conjunct2, THEN conjunct2, THEN conjunct2]
  show ?thesis using t r1 r2 c3 c5
    by (simp add: example_resolver_def)
qed

text \<open>
  C6. A rule of type \<^verbatim>\<open>sphinx_htmldir\<close>: when \<open>path\<close> ends with \<^verbatim>\<open>.html\<close>, the
  result is the path builder's result (\<open>allow_crossdomain\<close> false) for \<open>path\<close> with its
  leading character stripped and the trailing \<^verbatim>\<open>.html\<close> replaced by \<^verbatim>\<open>/\<close> by a
  substitution anchored at the end of the string; otherwise there is no match. For
  \<open>path\<close> of the form \<^verbatim>\<open>/stem.html\<close> the filename is \<^verbatim>\<open>stem/\<close> with \<open>stem\<close> unchanged,
  also when \<open>stem\<close> contains \<^verbatim>\<open>.html\<close> itself.
\<close>

theorem sphinx_htmldir_rule:
  assumes "redirect_type r = ''sphinx_htmldir''"
  shows "get_redirect_path resolve_path r path full_path language version_slug =
           Inr (if endswith path ''.html''
                then Some (get_full_path resolve_path r
                             (spec_replace_ending ''.html'' ''/'' (slice_from_1 path))
                             language version_slug False)
                else None)
       \<and> slice_from_1 (CHR ''/'' # rest) = rest
       \<and> get_redirect_path resolve_path r (''/'' @ stem @ ''.html'') full_path
            language version_slug =
           Inr (Some (resolve_path (project r) language version_slug (stem @ ''/'')))
       \<and> get_redirect_path resolve_path r ''/guide/install.html'' full_path language version_slug =
           Inr (Some (resolve_path (project r) language version_slug ''guide/install/''))
       \<and> get_redirect_path resolve_path r ''/guide/install'' full_path language version_slug =
           Inr None"
proof -
  have g: "get_redirect_path resolve_path r p full_path language version_slug =
      Inr (redirect_sphinx_htmldir resolve_path r p full_path language version_slug)" for p
    using assms by (simp add: get_redirect_path_def)
  have a: "get_redirect_path resolve_path r (''/'' @ s @ ''.html'') full_path language version_slug =
      Inr (Some (resolve_path (project r) language version_slug (s @ ''/'')))" for s
  proof -
    have "suffix ''.html'' (''/'' @ s @ ''.html'')"
      by (metis append_assoc suffixI)
    moreover have "slice_from_1 (''/'' @ s @ ''.html'') = s @ ''.html''"
      by (simp add: slice_from_1_def)
    ultimately show ?thesis
      unfolding g redirect_sphinx_htmldir_eq endswith_def
      by (simp only: suffix_endswith_tail if_True)
  qed
  have c: "get_redirect_path resolve_path r ''/guide/install'' full_path language version_slug =
      Inr None"
    unfolding g redirect_sphinx_htmldir_eq endswith_def
    by (simp add: suffix_to_prefix)
  show ?thesis
    using a [of stem] a [of "''guide/install''"] c
    by (simp add: g redirect_sphinx_htmldir_eq get_full_path_no_crossdomain slice_from_1_slash)
qed

theorem sphinx_htmldir_rule_witness:
  "redirect_type (mk_redirect () ''sphinx_htmldir'' [] []) = ''sphinx_htmldir''
   \<and> get_redirect_path example_resolver (mk_redirect () ''sphinx_htmldir'' [] [])
        ''/guide/install.html'' None None None = Inr (Some ''/en/latest/guide/install/'')
   \<and> get_redirect_path example_resolver (mk_redirect () ''sphinx_htmldir'' [] [])
        ''/a.html/b.html'' None None None = Inr (Some ''/en/latest/a.html/b/'')
   \<and> get_redirect_path example_resolver (mk_redirect () ''sphinx_htmldir'' [] [])
        ''/guide/install'' None None None = Inr None"
proof -
  let ?r = "mk_redirect () ''sphinx_htmldir'' [] []"
  have t: "redirect_type ?r = ''sphinx_htmldir''"
    by (simp add: mk_redirect_def)
  note th = sphinx_htmldir_rule [OF t, of example_resolver "[]" None None None "[]"
      "''a.html/b''"]
  note c = th [THEN conjunct2, THEN conjunct2]
  show ?thesis using t c
    by (simp add: example_resolver_def)
qed

text \<open>
  C7. The claim says that the derived field \<open>from_url_without_rest\<close> is consistent
  with \<open>from_url\<close> at every read and never holds a value derived from an earlier
  \<open>from_url\<close>. \<^verbatim>\<open>Redirect.save\<close> writes the field only under its guard (type Exact
  and token present), so a rule that is saved, given a \<open>from_url\<close> without the token
  and saved again keeps the old value: after these three steps \<open>from_url\<close> is
  \<^verbatim>\<open>/new/\<close> and \<open>from_url_without_rest\<close> is still \<^verbatim>\<open>/docs/\<close>.
\<close>

theorem save_stale_counterexample:
  "from_url (run_ops (mk_redirect () ''exact'' ''/docs/$rest'' ''/v2/'')
       [Save, Set_from_url ''/new/'', Save]) = ''/new/''
   \<and> from_url_without_rest (run_ops (mk_redirect () ''exact'' ''/docs/$rest'' ''/v2/'')
       [Save, Set_from_url ''/new/'', Save]) = Some ''/docs/''
   \<and> py_replace rest_token [] None ''/new/'' = ''/new/''
   \<and> \<not> derived_field_consistent (run_ops (mk_redirect () ''exact'' ''/docs/$rest'' ''/v2/'')
       [Save, Set_from_url ''/new/'', Save])"
  by (simp add: run_ops_def save_def mk_redirect_def rest_token_def py_replace_def
      derived_field_consistent_def)

text \<open>
  C7, amended. After any sequence of field assignments and saves that ends with a
  save: if the rule's type is Exact and \<open>from_url\<close> contains the wildcard token, the
  stored \<open>from_url_without_rest\<close> equals \<open>from_url\<close> with the token removed
  (\<^verbatim>\<open>str.replace\<close> of every occurrence, found from the left); where the token
  occurs once, \<open>from_url = a @ token @ b\<close>, the value is \<open>a @ b\<close>. The field is written
  only by a save and only under that guard: a save at which the guard fails leaves it
  as it was, and so does every assignment to the type, to \<open>from_url\<close> and to \<open>to_url\<close>.
  A save changes neither \<open>from_url\<close> nor the type.
\<close>

theorem save_guarded_roundtrip:
  "(redirect_type (run_ops r (ops @ [Save])) = ''exact''
      \<and> contains rest_token (from_url (run_ops r (ops @ [Save]))) \<longrightarrow>
        from_url_without_rest (run_ops r (ops @ [Save])) =
          Some (py_replace rest_token [] None (from_url (run_ops r (ops @ [Save])))))
   \<and> (\<not> (redirect_type (run_ops r (ops @ [Save])) = ''exact''
          \<and> contains rest_token (from_url (run_ops r (ops @ [Save])))) \<longrightarrow>
        from_url_without_rest (run_ops r (ops @ [Save])) = from_url_without_rest (run_ops r ops))
   \<and> from_url_without_rest (run_ops r (ops @ [Set_redirect_type t])) =
        from_url_without_rest (run_ops r ops)
   \<and> from_url_without_rest (run_ops r (ops @ [Set_from_url f])) =
        from_url_without_rest (run_ops r ops)
   \<and> from_url_without_rest (run_ops r (ops @ [Set_to_url u])) =
        from_url_without_rest (run_ops r ops)
   \<and> from_url (run_ops r (ops @ [Save])) = from_url (run_ops r ops)
   \<and> redirect_type (run_ops r (ops @ [Save])) = redirect_type (run_ops r ops)
   \<and> (\<not> contains rest_token (a @ butlast rest_token) \<and> \<not> contains rest_token b \<longrightarrow>
        py_replace rest_token [] None (a @ rest_token @ b) = a @ b)"
proof -
  have "rest_token \<noteq> []" by (simp add: rest_token_def)
  then have "py_replace rest_token [] None (a @ rest_token @ b) = a @ b"
    if "\<not> contains rest_token (a @ butlast rest_token)" "\<not> contains rest_token b"
    using that by (rule py_replace_single_token)
  then show ?thesis
    by (auto simp: run_ops_snoc save_def)
qed

theorem save_guarded_roundtrip_witness:
  "redirect_type (run_ops (mk_redirect () ''page'' ''/a'' ''/v2/'')
       ([Set_redirect_type ''exact'', Set_from_url ''/docs/$rest''] @ [Save])) = ''exact''
   \<and> contains rest_token (from_url (run_ops (mk_redirect () ''page'' ''/a'' ''/v2/'')
       ([Set_redirect_type ''exact'', Set_from_url ''/docs/$rest''] @ [Save])))
   \<and> \<not> contains rest_token (''/docs/'' @ butlast rest_token)
   \<and> \<not> contains rest_token []
   \<and> from_url_without_rest (run_ops (mk_redirect () ''page'' ''/a'' ''/v2/'')
       ([Set_redirect_type ''exact'', Set_from_url ''/docs/$rest''] @ [Save])) = Some ''/docs/''
   \<and> \<not> (redirect_type (run_ops (mk_redirect () ''exact'' ''/docs/$rest'' ''/v2/'')
         ([Save, Set_redirect_type ''page''] @ [Save])) = ''exact''
       \<and> contains rest_token (from_url (run_ops (mk_redirect () ''exact'' ''/docs/$rest'' ''/v2/'')
         ([Save, Set_redirect_type ''page''] @ [Save]))))
   \<and> from_url_without_rest (run_ops (mk_redirect () ''exact'' ''/docs/$rest'' ''/v2/'')
       ([Save, Set_redirect_type ''page''] @ [Save])) = Some ''/docs/''"
proof -
  let ?r = "mk_redirect () ''page'' ''/a'' ''/v2/''"
  let ?ops = "[Set_redirect_type ''exact'', Set_from_url ''/docs/$rest'']"
  let ?r2 = "mk_redirect () ''exact'' ''/docs/$rest'' ''/v2/''"
  let ?ops2 = "[Save, Set_redirect_type ''page'']"
  note th = save_guarded_roundtrip [of ?r ?ops _ _ _ "''/docs/''" "[]"]
  note th2 = save_guarded_roundtrip [of ?r2 ?ops2 "''page''" "[]" "[]" "[]" "[]",
      THEN conjunct2, THEN conjunct1]
  have f: "from_url (run_ops ?r ?ops) = ''/docs/'' @ rest_token @ []"
    and t: "redirect_type (run_ops ?r ?ops) = ''exact''"
    by (simp_all add: run_ops_def mk_redirect_def rest_token_def)
  have c: "contains rest_token (''/docs/'' @ rest_token @ [])"
    by (simp add: rest_token_def)
  have n: "\<not> contains rest_token (''/docs/'' @ butlast rest_token)" "\<not> contains rest_token []"
    by (simp_all add: rest_token_def)
  have t2: "redirect_type (run_ops ?r2 ?ops2) = ''page''"
    by (simp add: run_ops_def mk_redirect_def save_def)
  have g2: "redirect_type (run_ops ?r2 (?ops2 @ [Save])) = ''page''"
    using save_guarded_roundtrip [of ?r2 ?ops2 "''page''" "[]" "[]" "[]" "[]"] t2 by simp
  have w2: "from_url_without_rest (run_ops ?r2 ?ops2) = Some ''/docs/''"
    by (simp add: run_ops_def mk_redirect_def save_def rest_token_def py_replace_def)
  have a: "from_url_without_rest (run_ops ?r (?ops @ [Save])) = Some ''/docs/''"
    using th f t c n by (simp only:) simp
  have b: "from_url_without_rest (run_ops ?r2 (?ops2 @ [Save])) = Some ''/docs/''"
    using th2 g2 w2 by simp
  have t1: "redirect_type (run_ops ?r (?ops @ [Save])) = ''exact''"
    and c1: "contains rest_token (from_url (run_ops ?r (?ops @ [Save])))"
    by (simp_all add: run_ops_def mk_redirect_def save_def rest_token_def)
  show ?thesis using a b g2 n t1 c1
    by simp
qed

text \<open>
  C8. The claim says that a rule whose type tag is not one of the five enumerated
  values is rejected when it is loaded, and that the dispatch is never invoked on
  such a tag. \<^verbatim>\<open>Redirect.save\<close> checks nothing about the type: the rule with the tag
  \<^verbatim>\<open>advanced\<close> is stored as it is, and \<open>get_redirect_path\<close> on the stored rule is
  where the error appears, as an AttributeError.
\<close>

theorem unknown_type_counterexample:
  "redirect_type (mk_redirect () ''advanced'' ''/a'' ''/b'') \<notin> set TYPE_CHOICES
   \<and> save (mk_redirect () ''advanced'' ''/a'' ''/b'') = mk_redirect () ''advanced'' ''/a'' ''/b''
   \<and> get_redirect_path example_resolver (save (mk_redirect () ''advanced'' ''/a'' ''/b''))
        ''/a'' (Some ''/en/latest/a'') None None = Inl AttributeError"
  by (simp add: save_def mk_redirect_def TYPE_CHOICES_def get_redirect_path_def)

text \<open>
  C8, amended. For a rule whose type tag is not one of the five enumerated values,
  \<^verbatim>\<open>save\<close> stores the rule unchanged and without an error, and \<open>get_redirect_path\<close>
  on the stored rule raises: TypeError for the tag \<^verbatim>\<open>type\<close> (the name
  \<^verbatim>\<open>redirect_type\<close> is the field, a string) and AttributeError for every other
  tag. It never returns no match for such a tag. For a rule with one of the five
  types the save keeps the type, and the dispatch on the stored rule, given a
  \<open>full_path\<close>, finds its method and returns a result.
\<close>

theorem unknown_type_raises_at_resolution:
  "(redirect_type r \<notin> set TYPE_CHOICES \<longrightarrow>
      save r = r
      \<and> get_redirect_path resolve_path (save r) path full_path language version_slug =
          (if redirect_type r = ''type'' then Inl TypeError else Inl AttributeError)
      \<and> get_redirect_path resolve_path (save r) path full_path language version_slug \<noteq> Inr None)
   \<and> (redirect_type r \<in> set TYPE_CHOICES \<longrightarrow>
      redirect_type (save r) = redirect_type r
      \<and> (\<exists>result. get_redirect_path resolve_path (save r) path (Some fp) language version_slug =
            Inr result))"
proof -
  have t: "redirect_type (save r) = redirect_type r"
    by (simp add: save_def)
  have s: "save r = r" if "redirect_type r \<notin> set TYPE_CHOICES"
    using that by (auto simp: save_def TYPE_CHOICES_def)
  have a: "get_redirect_path resolve_path r path full_path language version_slug =
      (if redirect_type r = ''type'' then Inl TypeError else Inl AttributeError)"
    if "redirect_type r \<notin> set TYPE_CHOICES"
    using that by (simp add: get_redirect_path_def TYPE_CHOICES_def)
  have b: "\<exists>result. get_redirect_path resolve_path (save r) path (Some fp) language version_slug =
      Inr result"
    if "redirect_type r \<in> set TYPE_CHOICES"
    using that t
    by (auto simp: get_redirect_path_def TYPE_CHOICES_def redirect_exact_def Let_def)
  show ?thesis
    using t s a b by auto
qed

theorem unknown_type_raises_at_resolution_witness:
  "redirect_type (mk_redirect () ''advanced'' ''/a'' ''/b'') \<notin> set TYPE_CHOICES
   \<and> save (mk_redirect () ''advanced'' ''/a'' ''/b'') = mk_redirect () ''advanced'' ''/a'' ''/b''
   \<and> get_redirect_path example_resolver (save (mk_redirect () ''advanced'' ''/a'' ''/b''))
        ''/a'' None None None = Inl AttributeError
   \<and> redirect_type (mk_redirect () ''type'' ''/a'' ''/b'') \<notin> set TYPE_CHOICES
   \<and> get_redirect_path example_resolver (save (mk_redirect () ''type'' ''/a'' ''/b''))
        ''/a'' None None None = Inl TypeError
   \<and> redirect_type (mk_redirect () ''exact'' ''/a/$rest'' ''/b/'') \<in> set TYPE_CHOICES
   \<and> (\<exists>result. get_redirect_path example_resolver
          (save (mk_redirect () ''exact'' ''/a/$rest'' ''/b/''))
          ''/x'' (Some ''/a/x'') None None = Inr result)"
proof -
  let ?bad = "mk_redirect () ''advanced'' ''/a'' ''/b''"
  let ?ty = "mk_redirect () ''type'' ''/a'' ''/b''"
  let ?good = "mk_redirect () ''exact'' ''/a/$rest'' ''/b/''"
  have n: "redirect_type ?bad \<notin> set TYPE_CHOICES" "redirect_type ?ty \<notin> set TYPE_CHOICES"
    by (simp_all add: mk_redirect_def TYPE_CHOICES_def)
  have t: "redirect_type ?bad \<noteq> ''type''" "redirect_type ?ty = ''type''"
    by (simp_all add: mk_redirect_def)
  have g: "redirect_type ?good \<in> set TYPE_CHOICES"
    by (simp add: mk_redirect_def TYPE_CHOICES_def)
  note th1 = unknown_type_raises_at_resolution
      [of ?bad example_resolver "''/a''" None None None "[]", THEN conjunct1, rule_format, OF n(1)]
  note th2 = unknown_type_raises_at_resolution
      [of ?ty example_resolver "''/a''" None None None "[]", THEN conjunct1, rule_format, OF n(2)]
  note th3 = unknown_type_raises_at_resolution
      [of ?good example_resolver "''/x''" None None None "''/a/x''", THEN conjunct2, rule_format,
       OF g]
  have a: "save ?bad = ?bad"
    using th1 by (rule conjunct1)
  have b: "get_redirect_path example_resolver (save ?bad) ''/a'' None None None =
      Inl AttributeError"
    using th1 [THEN conjunct2, THEN conjunct1] t(1) by (simp only: if_False)
  have c: "get_redirect_path example_resolver (save ?ty) ''/a'' None None None = Inl TypeError"
    using th2 [THEN conjunct2, THEN conjunct1] t(2) by (simp only: refl if_True)
  have d: "\<exists>result. get_redirect_path example_resolver (save ?good)
      ''/x'' (Some ''/a/x'') None None = Inr result"
    using th3 by (rule conjunct2)
  show ?thesis using n g a b c d
    by (simp only: simp_thms)
qed

end
